theory Spec2Isabelle
  imports Main
begin

section \<open>Data model\<close>

text \<open>
  The verification route keeps its pending challenges in the table
  \<open>prisma.verification\<close>. A row carries the verification type, the target, the TOTP
  configuration and an optional absolute expiry (milliseconds since the epoch).
\<close>

datatype VerificationTypes = ForgotPassword | Onboarding | ChangeEmail

definition types :: "string list" where
  "types = [''forgot-password'', ''onboarding'', ''change-email'']"

fun typeOfString :: "string \<Rightarrow> VerificationTypes option" where
  "typeOfString s =
     (if s = ''forgot-password'' then Some ForgotPassword
      else if s = ''onboarding'' then Some Onboarding
      else if s = ''change-email'' then Some ChangeEmail
      else None)"

fun stringOfType :: "VerificationTypes \<Rightarrow> string" where
  "stringOfType ForgotPassword = ''forgot-password''"
| "stringOfType Onboarding = ''onboarding''"
| "stringOfType ChangeEmail = ''change-email''"

record OTPConfig =
  window :: int

fun typeOTPConfig :: "VerificationTypes \<Rightarrow> OTPConfig" where
  "typeOTPConfig ForgotPassword = \<lparr>window = 0\<rparr>"
| "typeOTPConfig Onboarding = \<lparr>window = 0\<rparr>"
| "typeOTPConfig ChangeEmail = \<lparr>window = 0\<rparr>"

record verification =
  v_type :: VerificationTypes
  v_target :: string
  v_secret :: string
  v_algorithm :: string
  v_period :: int
  v_expiresAt :: "int option"

text \<open>
  Errors the code can raise: the Prisma errors that the calls of this route can meet
  (\<open>delete\<close> of a row that does not exist, \<open>create\<close> against the unique index
  \<open>target_type\<close>, \<open>create\<close> with an invalid date), the \<open>TypeError\<close> of \<open>new URL\<close> on a
  string that is not a URL, and the fail-fast of the TOTP primitive on a non-positive
  period.
\<close>

datatype error =
  RecordNotFound | UniqueConstraintFailed | InvalidDate | InvalidURL | InvalidPeriod

text \<open>
  Every call on the persistence client and every invocation of a flow handler is logged,
  in order, so that the order and the number of accesses can be stated.
\<close>

datatype event = FindFirst | DeleteMany | Create | Delete | Handler VerificationTypes

record world =
  verifications :: "verification list"
  trace :: "event list"

section \<open>The persistence client\<close>

text \<open>
  \<open>findFirst\<close> returns the first row that satisfies the where clause, \<open>deleteMany\<close>
  removes every row that satisfies it and never fails, \<open>create\<close> appends a row unless the
  unique index on (target, type) already holds one, and \<open>delete\<close> removes the row
  addressed by the unique key \<open>target_type\<close> and raises when there is none.
\<close>

definition log :: "event \<Rightarrow> world \<Rightarrow> world" where
  "log e w = w\<lparr>trace := trace w @ [e]\<rparr>"

definition hasKey :: "VerificationTypes \<Rightarrow> string \<Rightarrow> verification \<Rightarrow> bool" where
  "hasKey ty tg v = (v_type v = ty \<and> v_target v = tg)"

definition prisma_findFirst ::
  "(verification \<Rightarrow> bool) \<Rightarrow> world \<Rightarrow> verification option \<times> world" where
  "prisma_findFirst wh w = (find wh (verifications w), log FindFirst w)"

definition prisma_deleteMany :: "(verification \<Rightarrow> bool) \<Rightarrow> world \<Rightarrow> world" where
  "prisma_deleteMany wh w =
     log DeleteMany (w\<lparr>verifications := filter (\<lambda>v. \<not> wh v) (verifications w)\<rparr>)"

definition prisma_create :: "verification \<Rightarrow> world \<Rightarrow> (error + unit) \<times> world" where
  "prisma_create v w =
     (if list_ex (hasKey (v_type v) (v_target v)) (verifications w)
      then (Inl UniqueConstraintFailed, log Create w)
      else (Inr (), log Create (w\<lparr>verifications := verifications w @ [v]\<rparr>)))"

definition prisma_delete ::
  "VerificationTypes \<Rightarrow> string \<Rightarrow> world \<Rightarrow> (error + unit) \<times> world" where
  "prisma_delete ty tg w =
     (if list_ex (hasKey ty tg) (verifications w)
      then (Inr (), log Delete
              (w\<lparr>verifications := filter (\<lambda>v. \<not> hasKey ty tg v) (verifications w)\<rparr>))
      else (Inl RecordNotFound, log Delete w))"

section \<open>The TOTP primitive\<close>

text \<open>
  Modelled from the spec: the module \<open>~/utils/totp.server.ts\<close> (\<open>generateTOTP\<close>,
  \<open>verifyTOTP\<close>) is not among the sources. The keyed hash is a parameter \<open>H\<close>
  (algorithm, secret, time step); the code is the fixed-width rendering of its value in six
  decimal digits, \<open>generate\<close> is a function of the secret and of the time step
  \<open>floor (at_time / period)\<close>, \<open>verify\<close> recomputes the code for the current step and, when
  the window is positive, for the steps up to \<open>window\<close> before and after, and compares
  without leaving the loop over the bytes early. A period that is not positive fails fast.
\<close>

type_synonym hmac = "string \<Rightarrow> string \<Rightarrow> int \<Rightarrow> nat"

definition digitChar :: "nat \<Rightarrow> char" where
  "digitChar d = ''0123456789'' ! (d mod 10)"

definition sixDigits :: "nat \<Rightarrow> string" where
  "sixDigits n = map (\<lambda>k. digitChar ((n div 10 ^ k) mod 10)) [5, 4, 3, 2, 1, 0]"

definition generate :: "hmac \<Rightarrow> string \<Rightarrow> string \<Rightarrow> int \<Rightarrow> int \<Rightarrow> error + string" where
  "generate H secret alg period at_time =
     (if period \<le> 0 then Inl InvalidPeriod
      else Inr (sixDigits (H alg secret (at_time div period))))"

definition constantTimeEqual :: "string \<Rightarrow> string \<Rightarrow> bool" where
  "constantTimeEqual a b =
     (if length a \<noteq> length b then False
      else fold (\<lambda>(x, y) acc. acc \<and> x = y) (zip a b) True)"

definition verify ::
  "hmac \<Rightarrow> string \<Rightarrow> string \<Rightarrow> string \<Rightarrow> int \<Rightarrow> int \<Rightarrow> int \<Rightarrow> error + bool" where
  "verify H code secret alg period win at_time =
     (if period \<le> 0 then Inl InvalidPeriod
      else let step = at_time div period;
               steps = (if win > 0 then [step - win ..step + win] else [step])
           in Inr (list_ex (\<lambda>c. constantTimeEqual (sixDigits (H alg secret c)) code) steps))"

record TOTP =
  otp :: string
  t_secret :: string
  t_period :: int
  t_algorithm :: string

text \<open>
  Modelled from the spec: \<open>generateTOTP\<close> draws a fresh secret (the argument \<open>secret\<close>
  stands for the random bytes) and derives the current code; \<open>verifyTOTP\<close> checks a code at
  the current time. The clock is in milliseconds, the period in seconds.
\<close>

definition generateTOTP :: "hmac \<Rightarrow> int \<Rightarrow> string \<Rightarrow> string \<Rightarrow> int \<Rightarrow> error + TOTP" where
  "generateTOTP H now secret alg period =
     (case generate H secret alg period (now div 1000) of
        Inl e \<Rightarrow> Inl e
      | Inr c \<Rightarrow> Inr \<lparr>otp = c, t_secret = secret, t_period = period, t_algorithm = alg\<rparr>)"

definition verifyTOTP ::
  "hmac \<Rightarrow> int \<Rightarrow> string \<Rightarrow> string \<Rightarrow> string \<Rightarrow> int \<Rightarrow> int \<Rightarrow> error + bool" where
  "verifyTOTP H now code secret alg period win =
     verify H code secret alg period win (now div 1000)"

section \<open>Checking a challenge\<close>

text \<open>
  A URL is kept as its serialisation without the query and the list of its query
  parameters. \<open>searchParams_set\<close> is \<open>URLSearchParams.set\<close>: it replaces the value of the
  first entry of that name and removes the other entries of that name, or appends a new
  entry.
\<close>

record url =
  u_base :: string
  u_params :: "(string \<times> string) list"

fun set_entry :: "string \<Rightarrow> string \<Rightarrow> (string \<times> string) list \<Rightarrow> (string \<times> string) list" where
  "set_entry k x [] = [(k, x)]"
| "set_entry k x ((k', y) # ps) =
     (if k' = k then (k, x) # filter (\<lambda>p. fst p \<noteq> k) ps else (k', y) # set_entry k x ps)"

definition searchParams_set :: "string \<Rightarrow> string \<Rightarrow> url \<Rightarrow> url" where
  "searchParams_set k x u = u\<lparr>u_params := set_entry k x (u_params u)\<rparr>"

definition codeQueryParam :: string where "codeQueryParam = ''code''"
definition targetQueryParam :: string where "targetQueryParam = ''target''"
definition typeQueryParam :: string where "typeQueryParam = ''type''"
definition redirectToQueryParam :: string where "redirectToQueryParam = ''redirectTo''"

definition live :: "VerificationTypes \<Rightarrow> string \<Rightarrow> int \<Rightarrow> verification \<Rightarrow> bool" where
  "live ty tg now v =
     ((v_type v = ty \<and> v_target v = tg \<and>
         (case v_expiresAt v of None \<Rightarrow> False | Some e \<Rightarrow> e > now))
      \<or> (v_type v = ty \<and> v_target v = tg \<and> v_expiresAt v = None))"

definition isCodeValid ::
  "hmac \<Rightarrow> int \<Rightarrow> string \<Rightarrow> VerificationTypes \<Rightarrow> string \<Rightarrow> world \<Rightarrow> (error + bool) \<times> world" where
  "isCodeValid H now code ty tg w =
     (case prisma_findFirst (live ty tg now) w of
        (None, w1) \<Rightarrow> (Inr False, w1)
      | (Some v, w1) \<Rightarrow>
          (case verifyTOTP H now code (v_secret v) (v_algorithm v) (v_period v)
                  (window (typeOTPConfig ty)) of
             Inl e \<Rightarrow> (Inl e, w1)
           | Inr result \<Rightarrow> if \<not> result then (Inr False, w1) else (Inr True, w1)))"

section \<open>Parsing a submission\<close>

text \<open>
  A body (\<open>URLSearchParams\<close> or \<open>FormData\<close>) is represented by what the form parser reads
  from it: the entry that names the intent, if any (the intent is \<open>submit\<close> without one),
  and the value of each field of the schema. A field is absent, a string, or something
  that is not a string (a repeated entry, a file). The length of a string counts its
  elements, as the length of a JavaScript string counts its code units.
\<close>

datatype formValue = Undefined | Str string | NotAString

record payload =
  f_code :: formValue
  f_type :: formValue
  f_target :: formValue
  f_redirectTo :: formValue

record body =
  b_intent :: "string option"
  b_fields :: payload

text \<open>
  Of a request the route uses the query, the form data, and the URL of the verify page on
  the request's domain: \<open>r_verifyUrl\<close> is what \<open>new URL\<close> makes of the string
  \<open>getDomainUrl request\<close> followed by \<open>/verify\<close>, the parsed URL, or \<open>None\<close> when the
  string is not a URL and \<open>new URL\<close> throws.
\<close>

record request =
  r_verifyUrl :: "url option"
  r_searchParams :: body
  r_formData :: body

record verifyValue =
  codeParam :: string
  typeParam :: VerificationTypes
  targetParam :: string
  redirectToParam :: "string option"

text \<open>
  The schema library reports a parse as valid, dirty (issues were added, the value is still
  passed on, and refinements still run) or aborted (no value, refinements are skipped). A
  string of the wrong length is dirty; a value of the wrong type, or outside the
  enumeration, aborts. An object aborts when one of its fields does.
\<close>

datatype status = Valid | Dirty | Aborted

datatype issueCode = InvalidType | TooSmall | TooBig | InvalidEnumValue | Custom string

type_synonym issue = "string \<times> issueCode"

definition codeSchema :: "formValue \<Rightarrow> status \<times> issue list \<times> string option" where
  "codeSchema x =
     (case x of
        Str s \<Rightarrow>
          (let small = (if length s < 6 then [(codeQueryParam, TooSmall)] else []);
               big = (if length s > 6 then [(codeQueryParam, TooBig)] else [])
           in (if small @ big = [] then Valid else Dirty, small @ big, Some s))
      | _ \<Rightarrow> (Aborted, [(codeQueryParam, InvalidType)], None))"

definition typeSchema :: "formValue \<Rightarrow> status \<times> issue list \<times> VerificationTypes option" where
  "typeSchema x =
     (case x of
        Str s \<Rightarrow>
          (case typeOfString s of
             Some ty \<Rightarrow> (Valid, [], Some ty)
           | None \<Rightarrow> (Aborted, [(typeQueryParam, InvalidEnumValue)], None))
      | _ \<Rightarrow> (Aborted, [(typeQueryParam, InvalidType)], None))"

definition targetSchema :: "formValue \<Rightarrow> status \<times> issue list \<times> string option" where
  "targetSchema x =
     (case x of
        Str s \<Rightarrow> (Valid, [], Some s)
      | _ \<Rightarrow> (Aborted, [(targetQueryParam, InvalidType)], None))"

definition redirectToSchema ::
  "formValue \<Rightarrow> status \<times> issue list \<times> string option option" where
  "redirectToSchema x =
     (case x of
        Undefined \<Rightarrow> (Valid, [], Some None)
      | Str s \<Rightarrow> (Valid, [], Some (Some s))
      | NotAString \<Rightarrow> (Aborted, [(redirectToQueryParam, InvalidType)], None))"

definition VerifySchema :: "payload \<Rightarrow> status \<times> issue list \<times> verifyValue option" where
  "VerifySchema p =
     (case (codeSchema (f_code p), typeSchema (f_type p), targetSchema (f_target p),
            redirectToSchema (f_redirectTo p)) of
        ((s1, i1, Some c), (s2, i2, Some ty), (s3, i3, Some tg), (s4, i4, Some r)) \<Rightarrow>
          (if Dirty \<in> set [s1, s2, s3, s4] then Dirty else Valid, i1 @ i2 @ i3 @ i4,
           Some \<lparr>codeParam = c, typeParam = ty, targetParam = tg, redirectToParam = r\<rparr>)
      | ((s1, i1, _), (s2, i2, _), (s3, i3, _), (s4, i4, _)) \<Rightarrow>
          (Aborted, i1 @ i2 @ i3 @ i4, None))"

text \<open>
  The schema of \<open>validateRequest\<close>: \<open>VerifySchema\<close> refined by \<open>isCodeValid\<close>. The
  refinement runs on every parse that did not abort and adds the issue \<open>Invalid code\<close>
  when the check fails.
\<close>

definition refinedSchema ::
  "hmac \<Rightarrow> int \<Rightarrow> payload \<Rightarrow> world
     \<Rightarrow> (error + status \<times> issue list \<times> verifyValue option) \<times> world" where
  "refinedSchema H now p w =
     (case VerifySchema p of
        (st, issues, None) \<Rightarrow> (Inr (Aborted, issues, None), w)
      | (st, issues, Some d) \<Rightarrow>
          (case isCodeValid H now (codeParam d) (typeParam d) (targetParam d) w of
             (Inl e, w1) \<Rightarrow> (Inl e, w1)
           | (Inr codeIsValid, w1) \<Rightarrow>
               if \<not> codeIsValid
               then (Inr (Dirty, issues @ [(codeQueryParam, Custom ''Invalid code'')], Some d), w1)
               else (Inr (st, issues, Some d), w1)))"

record submission =
  s_intent :: string
  s_payload :: payload
  s_error :: "issue list"
  s_value :: "verifyValue option"

definition intentOf :: "body \<Rightarrow> string" where
  "intentOf b = (case b_intent b of None \<Rightarrow> ''submit'' | Some i \<Rightarrow> i)"

text \<open>
  The form parser resolves the payload with the schema whatever the intent is; the
  submission has a value exactly when the parse is valid.
\<close>

definition parse :: "hmac \<Rightarrow> int \<Rightarrow> body \<Rightarrow> world \<Rightarrow> (error + submission) \<times> world" where
  "parse H now b w =
     (case refinedSchema H now (b_fields b) w of
        (Inl e, w1) \<Rightarrow> (Inl e, w1)
      | (Inr (st, issues, d), w1) \<Rightarrow>
          (Inr \<lparr>s_intent = intentOf b, s_payload = b_fields b,
                s_error = (if st = Valid then [] else issues),
                s_value = (if st = Valid then d else None)\<rparr>, w1))"

section \<open>The route\<close>

record VerifyFunctionArgs =
  a_request :: request
  a_submission :: submission
  a_body :: body

text \<open>
  The three flow handlers are collaborators of the route; each is a function of its
  arguments to a response of its own.
\<close>

record 'r handlers =
  handleForgotPasswordVerification :: "VerifyFunctionArgs \<Rightarrow> 'r"
  handleOnboardingVerification :: "VerifyFunctionArgs \<Rightarrow> 'r"
  handleChangeEmailVerification :: "VerifyFunctionArgs \<Rightarrow> 'r"

datatype 'r response = Json string submission nat | Handled 'r

definition validateRequest ::
  "hmac \<Rightarrow> 'r handlers \<Rightarrow> int \<Rightarrow> request \<Rightarrow> body \<Rightarrow> world
     \<Rightarrow> (error + 'r response) \<times> world" where
  "validateRequest H hs now req b w =
     (case parse H now b w of
        (Inl e, w1) \<Rightarrow> (Inl e, w1)
      | (Inr sub, w1) \<Rightarrow>
          if s_intent sub \<noteq> ''submit'' then (Inr (Json ''idle'' sub 200), w1)
          else (case s_value sub of
                  None \<Rightarrow> (Inr (Json ''error'' sub 400), w1)
                | Some submissionValue \<Rightarrow>
                    (case prisma_delete (typeParam submissionValue)
                            (targetParam submissionValue) w1 of
                       (Inl e, w2) \<Rightarrow> (Inl e, w2)
                     | (Inr _, w2) \<Rightarrow>
                         (let args = \<lparr>a_request = req, a_submission = sub, a_body = b\<rparr>;
                              w3 = log (Handler (typeParam submissionValue)) w2
                          in case typeParam submissionValue of
                               ForgotPassword \<Rightarrow>
                                 (Inr (Handled (handleForgotPasswordVerification hs args)), w3)
                             | Onboarding \<Rightarrow>
                                 (Inr (Handled (handleOnboardingVerification hs args)), w3)
                             | ChangeEmail \<Rightarrow>
                                 (Inr (Handled (handleChangeEmailVerification hs args)), w3)))))"

text \<open>
  \<open>has\<close> is asked about the fields of the schema only (the loader asks about the code);
  the representation of a body keeps no other entry.
\<close>

definition has :: "string \<Rightarrow> body \<Rightarrow> bool" where
  "has name b =
     (if name = codeQueryParam then f_code (b_fields b) \<noteq> Undefined
      else if name = typeQueryParam then f_type (b_fields b) \<noteq> Undefined
      else if name = targetQueryParam then f_target (b_fields b) \<noteq> Undefined
      else if name = redirectToQueryParam then f_redirectTo (b_fields b) \<noteq> Undefined
      else False)"

definition loader ::
  "hmac \<Rightarrow> 'r handlers \<Rightarrow> int \<Rightarrow> request \<Rightarrow> world \<Rightarrow> (error + 'r response) \<times> world" where
  "loader H hs now req w =
     (let params = r_searchParams req
      in if \<not> has codeQueryParam params
         then (Inr (Json ''idle''
                 \<lparr>s_intent = [], s_payload = b_fields params, s_error = [], s_value = None\<rparr>
                 200), w)
         else validateRequest H hs now req params w)"

definition action ::
  "hmac \<Rightarrow> 'r handlers \<Rightarrow> int \<Rightarrow> request \<Rightarrow> world \<Rightarrow> (error + 'r response) \<times> world" where
  "action H hs now req w = validateRequest H hs now req (r_formData req) w"

section \<open>Issuing a challenge\<close>

definition getRedirectToUrl :: "request \<Rightarrow> VerificationTypes \<Rightarrow> string \<Rightarrow> error + url" where
  "getRedirectToUrl req ty tg =
     (case r_verifyUrl req of
        None \<Rightarrow> Inl InvalidURL
      | Some redirectToUrl \<Rightarrow>
          Inr (searchParams_set targetQueryParam tg
                 (searchParams_set typeQueryParam (stringOfType ty) redirectToUrl)))"

text \<open>
  A \<open>Date\<close> holds a time value of at most 8.64e15 milliseconds either side of the epoch;
  beyond that \<open>new Date\<close> gives an invalid date, which \<open>create\<close> refuses.
\<close>

definition maxDate :: int where
  "maxDate = 8640000000000000"

definition newDate :: "int \<Rightarrow> int option" where
  "newDate ms = (if - maxDate \<le> ms \<and> ms \<le> maxDate then Some ms else None)"

record prepared =
  p_otp :: string
  p_redirectTo :: url
  p_verifyUrl :: url

text \<open>
  The period is a whole number of seconds and the clock a whole number of milliseconds.
  \<open>secret\<close> stands for the random bytes \<open>generateTOTP\<close> draws. The calls are made in
  the order of the source: the URL, the code, \<open>deleteMany\<close>, then \<open>create\<close> with the
  expiry date, which raises, after the old challenges are gone, when that date is
  invalid.
\<close>

definition prepareVerification ::
  "hmac \<Rightarrow> int \<Rightarrow> string \<Rightarrow> int \<Rightarrow> request \<Rightarrow> VerificationTypes \<Rightarrow> string \<Rightarrow> world
     \<Rightarrow> (error + prepared) \<times> world" where
  "prepareVerification H now secret period req ty tg w =
     (case getRedirectToUrl req ty tg of
        Inl e \<Rightarrow> (Inl e, w)
      | Inr verifyUrl \<Rightarrow>
          (let redirectTo = verifyUrl
           in case generateTOTP H now secret ''SHA256'' period of
                Inl e \<Rightarrow> (Inl e, w)
              | Inr t \<Rightarrow>
                  (let w1 = prisma_deleteMany (hasKey ty tg) w
                   in case newDate (now + t_period t * 1000) of
                        None \<Rightarrow> (Inl InvalidDate, log Create w1)
                      | Some expires \<Rightarrow>
                          (case prisma_create
                                  \<lparr>v_type = ty, v_target = tg, v_secret = t_secret t,
                                   v_algorithm = t_algorithm t, v_period = t_period t,
                                   v_expiresAt = Some expires\<rparr> w1 of
                             (Inl e, w2) \<Rightarrow> (Inl e, w2)
                           | (Inr _, w2) \<Rightarrow>
                               (Inr \<lparr>p_otp = otp t, p_redirectTo = redirectTo,
                                     p_verifyUrl =
                                       searchParams_set codeQueryParam (otp t) verifyUrl\<rparr>,
                                w2)))))"

section \<open>Sequences of requests\<close>

text \<open>
  What happens to the table over time is a sequence of calls: a flow issues a challenge
  (\<open>prepareVerification\<close>), or a submission reaches the route (\<open>validateRequest\<close>, from
  the loader or from the action). A call that raises leaves the world as it was when it
  raised.
\<close>

datatype operation =
  Prepare int string int request VerificationTypes string
| Submit int request body

fun step :: "hmac \<Rightarrow> 'r handlers \<Rightarrow> operation \<Rightarrow> world \<Rightarrow> world" where
  "step H hs (Prepare now secret period req ty tg) w =
     snd (prepareVerification H now secret period req ty tg w)"
| "step H hs (Submit now req b) w = snd (validateRequest H hs now req b w)"

definition run :: "hmac \<Rightarrow> 'r handlers \<Rightarrow> operation list \<Rightarrow> world \<Rightarrow> world" where
  "run H hs ops w = fold (step H hs) ops w"

fun issuesFor :: "VerificationTypes \<Rightarrow> string \<Rightarrow> operation \<Rightarrow> bool" where
  "issuesFor ty tg (Prepare now secret period req ty' tg') = (ty' = ty \<and> tg' = tg)"
| "issuesFor ty tg (Submit now req b) = False"

definition rowKey :: "verification \<Rightarrow> VerificationTypes \<times> string" where
  "rowKey v = (v_type v, v_target v)"

definition uniqueKeys :: "world \<Rightarrow> bool" where
  "uniqueKeys w = distinct (map rowKey (verifications w))"

definition challengesFor :: "VerificationTypes \<Rightarrow> string \<Rightarrow> world \<Rightarrow> verification list" where
  "challengesFor ty tg w = filter (hasKey ty tg) (verifications w)"

definition emptyWorld :: world where
  "emptyWorld = \<lparr>verifications = [], trace = []\<rparr>"

text \<open>
  A concrete keyed function and concrete handlers, to evaluate the definitions on examples.
  The theorems below hold for every \<open>H\<close> and for all handlers.
\<close>

definition sampleHash :: hmac where
  "sampleHash alg secret c = 1000 * length secret + nat (c mod 1000)"

definition sampleHandlers :: "string handlers" where
  "sampleHandlers =
     \<lparr>handleForgotPasswordVerification = (\<lambda>a. ''/reset-password''),
      handleOnboardingVerification = (\<lambda>a. ''/onboarding''),
      handleChangeEmailVerification = (\<lambda>a. ''/settings/profile'')\<rparr>"

definition sampleBody :: "string \<Rightarrow> body" where
  "sampleBody c =
     \<lparr>b_intent = None,
      b_fields = \<lparr>f_code = Str c, f_type = Str ''onboarding'', f_target = Str ''a@x.com'',
                  f_redirectTo = Undefined\<rparr>\<rparr>"

definition sampleRequest :: "string \<Rightarrow> request" where
  "sampleRequest c =
     \<lparr>r_verifyUrl = Some \<lparr>u_base = ''https://x.com/verify'', u_params = []\<rparr>,
      r_searchParams = sampleBody c, r_formData = sampleBody c\<rparr>"

definition issuedWorld :: world where
  "issuedWorld =
     snd (prepareVerification sampleHash 0 ''abc'' 300 (sampleRequest []) Onboarding ''a@x.com''
            emptyWorld)"

section \<open>Basic facts about the store and the check\<close>

lemma trace_log [simp]: "trace (log e w) = trace w @ [e]"
  by (simp add: log_def)

lemma verifications_log [simp]: "verifications (log e w) = verifications w"
  by (simp add: log_def)

lemma isCodeValid_world: "snd (isCodeValid H now code ty tg w) = log FindFirst w"
  by (simp add: isCodeValid_def prisma_findFirst_def split: option.splits sum.splits)

lemma typeOfString_types: "typeOfString s \<noteq> None \<longleftrightarrow> s \<in> set types"
  by (simp add: types_def)

lemma typeOfString_stringOfType: "typeOfString (stringOfType ty) = Some ty"
  by (cases ty) simp_all

lemma live_hasKey: "live ty tg now v \<Longrightarrow> hasKey ty tg v"
  by (auto simp: live_def hasKey_def)

lemma isCodeValid_True_row:
  assumes "fst (isCodeValid H now code ty tg w) = Inr True"
  shows "list_ex (hasKey ty tg) (verifications w)"
proof -
  from assms obtain v where "find (live ty tg now) (verifications w) = Some v"
    by (auto simp: isCodeValid_def prisma_findFirst_def split: option.splits sum.splits if_splits)
  then have "v \<in> set (verifications w)" "live ty tg now v"
    by (auto simp: find_Some_iff)
  then show ?thesis
    by (auto simp: list_ex_iff dest: live_hasKey)
qed

lemma isCodeValid_no_live:
  assumes "\<not> list_ex (live ty tg now) (verifications w)"
  shows "fst (isCodeValid H now code ty tg w) = Inr False"
proof -
  from assms have "find (live ty tg now) (verifications w) = None"
    by (simp add: find_None_iff list_ex_iff)
  then show ?thesis
    by (simp add: isCodeValid_def prisma_findFirst_def)
qed

lemma isCodeValid_no_row:
  assumes "\<not> list_ex (hasKey ty tg) (verifications w)"
  shows "fst (isCodeValid H now code ty tg w) = Inr False"
proof (rule isCodeValid_no_live)
  show "\<not> list_ex (live ty tg now) (verifications w)"
    using assms by (auto simp: list_ex_iff dest: live_hasKey)
qed

section \<open>The outcomes of a submission\<close>

lemma refinedSchema_aborted:
  assumes "snd (snd (VerifySchema p)) = None"
  shows "refinedSchema H now p w = (Inr (Aborted, fst (snd (VerifySchema p)), None), w)"
  using assms by (cases "VerifySchema p") (simp add: refinedSchema_def)

lemma refinedSchema_run:
  assumes "VerifySchema p = (st, issues, Some d)"
  shows "refinedSchema H now p w =
     (case fst (isCodeValid H now (codeParam d) (typeParam d) (targetParam d) w) of
        Inl e \<Rightarrow> Inl e
      | Inr ok \<Rightarrow> if ok then Inr (st, issues, Some d)
                  else Inr (Dirty, issues @ [(codeQueryParam, Custom ''Invalid code'')], Some d),
      log FindFirst w)"
proof -
  obtain r w1 where r: "isCodeValid H now (codeParam d) (typeParam d) (targetParam d) w = (r, w1)"
    by (cases "isCodeValid H now (codeParam d) (typeParam d) (targetParam d) w")
  with isCodeValid_world[of H now "codeParam d" "typeParam d" "targetParam d" w]
  have "w1 = log FindFirst w" by simp
  with r assms show ?thesis
    by (simp add: refinedSchema_def split: sum.splits)
qed

lemma parse_aborted:
  assumes "snd (snd (VerifySchema (b_fields b))) = None"
  shows "parse H now b w =
     (Inr \<lparr>s_intent = intentOf b, s_payload = b_fields b,
           s_error = fst (snd (VerifySchema (b_fields b))), s_value = None\<rparr>, w)"
  by (simp add: parse_def refinedSchema_aborted[OF assms])

lemma parse_run:
  assumes "VerifySchema (b_fields b) = (st, issues, Some d)"
  shows "parse H now b w =
     (case fst (isCodeValid H now (codeParam d) (typeParam d) (targetParam d) w) of
        Inl e \<Rightarrow> Inl e
      | Inr ok \<Rightarrow>
          Inr \<lparr>s_intent = intentOf b, s_payload = b_fields b,
               s_error = (if ok \<and> st = Valid then []
                          else if ok then issues
                          else issues @ [(codeQueryParam, Custom ''Invalid code'')]),
               s_value = (if ok \<and> st = Valid then Some d else None)\<rparr>,
      log FindFirst w)"
  by (simp add: parse_def refinedSchema_run[OF assms] split: sum.splits)

lemma validateRequest_aborted:
  assumes "snd (snd (VerifySchema (b_fields b))) = None"
  shows "\<exists>sub. validateRequest H hs now req b w =
           (Inr (if intentOf b \<noteq> ''submit'' then Json ''idle'' sub 200 else Json ''error'' sub 400),
            w)"
  by (simp add: validateRequest_def parse_aborted[OF assms])

lemma validateRequest_raised:
  assumes "VerifySchema (b_fields b) = (st, issues, Some d)"
    and "fst (isCodeValid H now (codeParam d) (typeParam d) (targetParam d) w) = Inl e"
  shows "validateRequest H hs now req b w = (Inl e, log FindFirst w)"
  using assms(2) by (simp add: validateRequest_def parse_run[OF assms(1)])

lemma validateRequest_rejected:
  assumes "VerifySchema (b_fields b) = (st, issues, Some d)"
    and "fst (isCodeValid H now (codeParam d) (typeParam d) (targetParam d) w) = Inr ok"
    and "\<not> ok \<or> st \<noteq> Valid \<or> intentOf b \<noteq> ''submit''"
  shows "\<exists>sub. validateRequest H hs now req b w =
           (Inr (if intentOf b \<noteq> ''submit'' then Json ''idle'' sub 200 else Json ''error'' sub 400),
            log FindFirst w)"
  using assms(2,3) by (auto simp: validateRequest_def parse_run[OF assms(1)])

lemma validateRequest_accepted:
  assumes "VerifySchema (b_fields b) = (Valid, issues, Some d)"
    and "fst (isCodeValid H now (codeParam d) (typeParam d) (targetParam d) w) = Inr True"
    and "intentOf b = ''submit''"
  shows "\<exists>r. validateRequest H hs now req b w =
           (Inr (Handled r),
            log (Handler (typeParam d))
              (log Delete ((log FindFirst w)
                 \<lparr>verifications :=
                    filter (\<lambda>v. \<not> hasKey (typeParam d) (targetParam d) v) (verifications w)\<rparr>)))"
proof -
  have "list_ex (hasKey (typeParam d) (targetParam d)) (verifications w)"
    using assms(2) by (rule isCodeValid_True_row)
  then show ?thesis
    using assms(2,3)
    by (simp add: validateRequest_def parse_run[OF assms(1)] prisma_delete_def Let_def
             split: VerificationTypes.splits)
qed

lemma validateRequest_accepted_response:
  assumes "VerifySchema (b_fields b) = (Valid, issues, Some d)"
    and "fst (isCodeValid H now (codeParam d) (typeParam d) (targetParam d) w) = Inr True"
    and "intentOf b = ''submit''"
  shows "fst (validateRequest H hs now req b w) =
     Inr (Handled
       ((case typeParam d of
           ForgotPassword \<Rightarrow> handleForgotPasswordVerification hs
         | Onboarding \<Rightarrow> handleOnboardingVerification hs
         | ChangeEmail \<Rightarrow> handleChangeEmailVerification hs)
        \<lparr>a_request = req,
         a_submission =
           \<lparr>s_intent = ''submit'', s_payload = b_fields b, s_error = [], s_value = Some d\<rparr>,
         a_body = b\<rparr>))"
proof -
  have "list_ex (hasKey (typeParam d) (targetParam d)) (verifications w)"
    using assms(2) by (rule isCodeValid_True_row)
  then show ?thesis
    using assms(2,3)
    by (simp add: validateRequest_def parse_run[OF assms(1)] prisma_delete_def Let_def
             split: VerificationTypes.splits)
qed

text \<open>
  Every submission ends in one of four ways: the schema aborted (no store access), the
  check raised, the submission was rejected after the check, or it was accepted.
\<close>

lemma validateRequest_outcomes:
  obtains
    (aborted) sub where
      "snd (snd (VerifySchema (b_fields b))) = None"
      "validateRequest H hs now req b w =
         (Inr (if intentOf b \<noteq> ''submit'' then Json ''idle'' sub 200 else Json ''error'' sub 400),
          w)"
  | (raised) st issues d e where
      "VerifySchema (b_fields b) = (st, issues, Some d)"
      "fst (isCodeValid H now (codeParam d) (typeParam d) (targetParam d) w) = Inl e"
      "validateRequest H hs now req b w = (Inl e, log FindFirst w)"
  | (rejected) st issues d ok sub where
      "VerifySchema (b_fields b) = (st, issues, Some d)"
      "fst (isCodeValid H now (codeParam d) (typeParam d) (targetParam d) w) = Inr ok"
      "\<not> ok \<or> st \<noteq> Valid \<or> intentOf b \<noteq> ''submit''"
      "validateRequest H hs now req b w =
         (Inr (if intentOf b \<noteq> ''submit'' then Json ''idle'' sub 200 else Json ''error'' sub 400),
          log FindFirst w)"
  | (accepted) issues d r where
      "VerifySchema (b_fields b) = (Valid, issues, Some d)"
      "fst (isCodeValid H now (codeParam d) (typeParam d) (targetParam d) w) = Inr True"
      "intentOf b = ''submit''"
      "validateRequest H hs now req b w =
         (Inr (Handled r),
          log (Handler (typeParam d))
            (log Delete ((log FindFirst w)
               \<lparr>verifications :=
                  filter (\<lambda>v. \<not> hasKey (typeParam d) (targetParam d) v) (verifications w)\<rparr>)))"
proof -
  obtain st issues dopt where vs: "VerifySchema (b_fields b) = (st, issues, dopt)"
    by (cases "VerifySchema (b_fields b)")
  show ?thesis
  proof (cases dopt)
    case None
    with vs have n: "snd (snd (VerifySchema (b_fields b))) = None" by simp
    from validateRequest_aborted[OF n, of H hs now req w] n aborted show ?thesis by blast
  next
    case (Some d)
    with vs have vs': "VerifySchema (b_fields b) = (st, issues, Some d)" by simp
    show ?thesis
    proof (cases "fst (isCodeValid H now (codeParam d) (typeParam d) (targetParam d) w)")
      case (Inl e)
      from validateRequest_raised[OF vs' Inl] vs' Inl raised show ?thesis by blast
    next
      case (Inr ok)
      show ?thesis
      proof (cases "\<not> ok \<or> st \<noteq> Valid \<or> intentOf b \<noteq> ''submit''")
        case True
        from validateRequest_rejected[OF vs' Inr True, of hs req] vs' Inr True rejected
        show ?thesis by blast
      next
        case False
        then have ok: "ok" and st: "st = Valid" and i: "intentOf b = ''submit''" by auto
        from vs' st have vs'': "VerifySchema (b_fields b) = (Valid, issues, Some d)" by simp
        from Inr ok
        have t: "fst (isCodeValid H now (codeParam d) (typeParam d) (targetParam d) w) = Inr True"
          by simp
        from validateRequest_accepted[OF vs'' t i, of hs req] vs'' t i accepted
        show ?thesis by blast
      qed
    qed
  qed
qed

section \<open>Evaluating the examples\<close>

lemmas schema_defs = VerifySchema_def codeSchema_def typeSchema_def targetSchema_def
  redirectToSchema_def sampleBody_def sampleRequest_def intentOf_def has_def
  codeQueryParam_def typeQueryParam_def targetQueryParam_def redirectToQueryParam_def

lemmas totp_defs = generateTOTP_def generate_def verifyTOTP_def verify_def sixDigits_def
  digitChar_def constantTimeEqual_def sampleHash_def

lemmas store_defs = prisma_findFirst_def prisma_deleteMany_def prisma_create_def
  prisma_delete_def log_def hasKey_def live_def emptyWorld_def

lemmas route_defs = validateRequest_def parse_def refinedSchema_def isCodeValid_def
  sampleHandlers_def

lemmas issue_defs = getRedirectToUrl_def searchParams_set_def newDate_def maxDate_def
  sampleRequest_def

lemma issuedWorld_eq:
  "issuedWorld =
     \<lparr>verifications =
        [\<lparr>v_type = Onboarding, v_target = ''a@x.com'', v_secret = ''abc'',
          v_algorithm = ''SHA256'', v_period = 300, v_expiresAt = Some 300000\<rparr>],
      trace = [DeleteMany, Create]\<rparr>"
  by (simp add: issuedWorld_def prepareVerification_def issue_defs totp_defs store_defs Let_def)

lemma sampleBody_schema:
  "length c = 6 \<Longrightarrow>
   VerifySchema (b_fields (sampleBody c)) =
     (Valid, [], Some \<lparr>codeParam = c, typeParam = Onboarding, targetParam = ''a@x.com'',
                       redirectToParam = None\<rparr>)"
  by (simp add: schema_defs)

section \<open>The check reads, and a failed submission changes nothing\<close>

text \<open>
  C7. \<open>isCodeValid\<close> only reads: it leaves every row as it was and makes exactly one
  \<open>findFirst\<close> call. A submission that is not accepted (the schema failed, the intent is
  not \<open>submit\<close>, or \<open>isCodeValid\<close> did not return true) is never dispatched and leaves
  every stored challenge, with its secret, period and expiry, exactly as it was.
\<close>

theorem check_does_not_mutate:
  "verifications (snd (isCodeValid H now code ty tg w)) = verifications w \<and>
   trace (snd (isCodeValid H now code ty tg w)) = trace w @ [FindFirst] \<and>
   ((fst (VerifySchema (b_fields b)) \<noteq> Valid \<or> intentOf b \<noteq> ''submit'' \<or>
     (\<forall>d. snd (snd (VerifySchema (b_fields b))) = Some d \<longrightarrow>
        fst (isCodeValid H now (codeParam d) (typeParam d) (targetParam d) w) \<noteq> Inr True))
    \<longrightarrow> (\<forall>r. fst (validateRequest H hs now req b w) \<noteq> Inr (Handled r)) \<and>
        verifications (snd (validateRequest H hs now req b w)) = verifications w)"
proof (intro conjI impI)
  show "verifications (snd (isCodeValid H now code ty tg w)) = verifications w"
    by (simp add: isCodeValid_world)
  show "trace (snd (isCodeValid H now code ty tg w)) = trace w @ [FindFirst]"
    by (simp add: isCodeValid_world)
next
  assume fails: "fst (VerifySchema (b_fields b)) \<noteq> Valid \<or> intentOf b \<noteq> ''submit'' \<or>
     (\<forall>d. snd (snd (VerifySchema (b_fields b))) = Some d \<longrightarrow>
        fst (isCodeValid H now (codeParam d) (typeParam d) (targetParam d) w) \<noteq> Inr True)"
  have "(\<forall>r. fst (validateRequest H hs now req b w) \<noteq> Inr (Handled r)) \<and>
        verifications (snd (validateRequest H hs now req b w)) = verifications w"
  proof (cases rule: validateRequest_outcomes[of b H hs now req w])
    case (aborted sub)
    then show ?thesis by simp
  next
    case (raised st issues d e)
    then show ?thesis by simp
  next
    case (rejected st issues d ok sub)
    then show ?thesis by simp
  next
    case (accepted issues d r)
    with fails show ?thesis by simp
  qed
  then show "\<forall>r. fst (validateRequest H hs now req b w) \<noteq> Inr (Handled r)"
    and "verifications (snd (validateRequest H hs now req b w)) = verifications w"
    by simp_all
qed

theorem check_does_not_mutate_witness:
  "fst (isCodeValid sampleHash 10000 ''111111'' Onboarding ''a@x.com'' issuedWorld) \<noteq> Inr True \<and>
   verifications (snd (validateRequest sampleHash sampleHandlers 10000 (sampleRequest ''111111'')
      (sampleBody ''111111'') issuedWorld)) = verifications issuedWorld"
proof -
  have f: "fst (isCodeValid sampleHash 10000 ''111111'' Onboarding ''a@x.com'' issuedWorld)
             \<noteq> Inr True"
    by (simp add: issuedWorld_eq isCodeValid_def totp_defs store_defs)
  then have "\<forall>d. snd (snd (VerifySchema (b_fields (sampleBody ''111111'')))) = Some d \<longrightarrow>
        fst (isCodeValid sampleHash 10000 (codeParam d) (typeParam d) (targetParam d) issuedWorld)
          \<noteq> Inr True"
    by (simp add: sampleBody_schema)
  with check_does_not_mutate[of sampleHash 10000 _ _ _ issuedWorld "sampleBody ''111111''"
      sampleHandlers "sampleRequest ''111111''"] f
  show ?thesis by blast
qed

section \<open>Order of check, consume and dispatch\<close>

text \<open>
  C5. On every submission the calls made are, in order: nothing (the schema aborted),
  or one \<open>findFirst\<close> (the check ran and the submission was not accepted), or one
  \<open>findFirst\<close>, then the delete, then one flow handler. In the first two cases no
  handler result is returned and no row changes. In the last case \<open>isCodeValid\<close> returned
  true for this submission, the delete removed the challenge of the pair before the
  handler, and the response is the result of the handler of the submission's type applied
  to the request, the parsed submission and the body. So the delete and the dispatch occur
  together or not at all.
\<close>

theorem consume_after_check_before_dispatch:
  "\<exists>evs. trace (snd (validateRequest H hs now req b w)) = trace w @ evs \<and>
     (((evs = [] \<or> evs = [FindFirst]) \<and>
         (\<forall>r. fst (validateRequest H hs now req b w) \<noteq> Inr (Handled r)) \<and>
         verifications (snd (validateRequest H hs now req b w)) = verifications w)
      \<or> (\<exists>issues d.
            VerifySchema (b_fields b) = (Valid, issues, Some d) \<and>
            intentOf b = ''submit'' \<and>
            fst (isCodeValid H now (codeParam d) (typeParam d) (targetParam d) w) = Inr True \<and>
            evs = [FindFirst, Delete, Handler (typeParam d)] \<and>
            fst (validateRequest H hs now req b w) =
              Inr (Handled
                ((case typeParam d of
                    ForgotPassword \<Rightarrow> handleForgotPasswordVerification hs
                  | Onboarding \<Rightarrow> handleOnboardingVerification hs
                  | ChangeEmail \<Rightarrow> handleChangeEmailVerification hs)
                 \<lparr>a_request = req,
                  a_submission =
                    \<lparr>s_intent = ''submit'', s_payload = b_fields b, s_error = [],
                     s_value = Some d\<rparr>,
                  a_body = b\<rparr>)) \<and>
            verifications (snd (validateRequest H hs now req b w)) =
              filter (\<lambda>v. \<not> hasKey (typeParam d) (targetParam d) v) (verifications w)))"
proof (cases rule: validateRequest_outcomes[of b H hs now req w])
  case (aborted sub)
  then show ?thesis by simp
next
  case (raised st issues d e)
  then show ?thesis by simp
next
  case (rejected st issues d ok sub)
  then show ?thesis by simp
next
  case (accepted issues d r)
  from validateRequest_accepted_response[OF accepted(1) accepted(2) accepted(3), of hs req]
    accepted
  show ?thesis by simp
qed

theorem consume_after_check_before_dispatch_witness:
  "trace (snd (validateRequest sampleHash sampleHandlers 10000 (sampleRequest ''003000'')
      (sampleBody ''003000'') issuedWorld)) = trace issuedWorld @ [FindFirst, Delete, Handler Onboarding]
   \<and> fst (validateRequest sampleHash sampleHandlers 10000 (sampleRequest ''003000'')
      (sampleBody ''003000'') issuedWorld) =
        Inr (Handled (handleOnboardingVerification sampleHandlers
          \<lparr>a_request = sampleRequest ''003000'',
           a_submission =
             \<lparr>s_intent = ''submit'', s_payload = b_fields (sampleBody ''003000''), s_error = [],
              s_value = Some \<lparr>codeParam = ''003000'', typeParam = Onboarding,
                              targetParam = ''a@x.com'', redirectToParam = None\<rparr>\<rparr>,
           a_body = sampleBody ''003000''\<rparr>))
   \<and> trace (snd (validateRequest sampleHash sampleHandlers 10000 (sampleRequest ''111111'')
      (sampleBody ''111111'') issuedWorld)) = trace issuedWorld @ [FindFirst]"
proof -
  have a: "validateRequest sampleHash sampleHandlers 10000 (sampleRequest ''003000'')
      (sampleBody ''003000'') issuedWorld =
        (Inr (Handled ''/onboarding''),
         \<lparr>verifications = [],
          trace = [DeleteMany, Create, FindFirst, Delete, Handler Onboarding]\<rparr>)"
    by (simp add: issuedWorld_eq route_defs schema_defs totp_defs store_defs)
  have b: "validateRequest sampleHash sampleHandlers 10000 (sampleRequest ''111111'')
      (sampleBody ''111111'') issuedWorld =
        (Inr (Json ''error''
           \<lparr>s_intent = ''submit'', s_payload = b_fields (sampleBody ''111111''),
            s_error = [(''code'', Custom ''Invalid code'')], s_value = None\<rparr> 400),
         issuedWorld\<lparr>trace := [DeleteMany, Create, FindFirst]\<rparr>)"
    by (simp add: issuedWorld_eq route_defs schema_defs totp_defs store_defs)
  have c: "trace issuedWorld = [DeleteMany, Create]"
    by (simp add: issuedWorld_eq)
  have h: "handleOnboardingVerification sampleHandlers x = ''/onboarding''" for x
    by (simp add: sampleHandlers_def)
  from consume_after_check_before_dispatch[of sampleHash sampleHandlers 10000
      "sampleRequest ''003000''" "sampleBody ''003000''" issuedWorld]
    consume_after_check_before_dispatch[of sampleHash sampleHandlers 10000
      "sampleRequest ''111111''" "sampleBody ''111111''" issuedWorld]
  show ?thesis
    by (simp add: a b c h)
qed

section \<open>Expiry\<close>

text \<open>
  C4. \<open>isCodeValid\<close> returns false whenever no challenge for (type, target) has a null
  expiry or an expiry strictly after the current time; in particular once every challenge
  for the pair has expired, whatever the submitted code is, so also for the code that is
  the TOTP code of that time step. When it returns true, the code was checked against a
  challenge of the pair whose expiry is null or strictly after the current time.
\<close>

theorem expired_challenge_is_rejected:
  "(list_all (\<lambda>v. hasKey ty tg v \<longrightarrow> (case v_expiresAt v of None \<Rightarrow> False | Some e \<Rightarrow> e \<le> now))
      (verifications w)
    \<longrightarrow> fst (isCodeValid H now code ty tg w) = Inr False) \<and>
   (fst (isCodeValid H now code ty tg w) = Inr True
    \<longrightarrow> (\<exists>v \<in> set (verifications w).
          hasKey ty tg v \<and>
          (v_expiresAt v = None \<or> (\<exists>e. v_expiresAt v = Some e \<and> now < e)) \<and>
          verifyTOTP H now code (v_secret v) (v_algorithm v) (v_period v) 0 = Inr True))"
proof (intro conjI impI)
  assume a: "list_all (\<lambda>v. hasKey ty tg v \<longrightarrow>
      (case v_expiresAt v of None \<Rightarrow> False | Some e \<Rightarrow> e \<le> now)) (verifications w)"
  have "\<not> list_ex (live ty tg now) (verifications w)"
  proof
    assume "list_ex (live ty tg now) (verifications w)"
    then obtain v where v: "v \<in> set (verifications w)" "live ty tg now v"
      by (auto simp: list_ex_iff)
    from a v(1) have "hasKey ty tg v \<longrightarrow> (case v_expiresAt v of None \<Rightarrow> False | Some e \<Rightarrow> e \<le> now)"
      by (simp add: list_all_iff)
    with v(2) show False
      by (auto simp: live_def hasKey_def split: option.splits)
  qed
  then show "fst (isCodeValid H now code ty tg w) = Inr False"
    by (rule isCodeValid_no_live)
next
  assume t: "fst (isCodeValid H now code ty tg w) = Inr True"
  then obtain v where f: "find (live ty tg now) (verifications w) = Some v"
    by (auto simp: isCodeValid_def prisma_findFirst_def split: option.splits sum.splits if_splits)
  then have v: "v \<in> set (verifications w)" "live ty tg now v"
    by (auto simp: find_Some_iff)
  have win: "window (typeOTPConfig ty) = 0"
    by (cases ty) simp_all
  from t f win
  have "verifyTOTP H now code (v_secret v) (v_algorithm v) (v_period v) 0 = Inr True"
    by (auto simp: isCodeValid_def prisma_findFirst_def split: sum.splits if_splits)
  moreover from v(2) have "hasKey ty tg v"
    by (rule live_hasKey)
  moreover from v(2) have "v_expiresAt v = None \<or> (\<exists>e. v_expiresAt v = Some e \<and> now < e)"
    by (auto simp: live_def split: option.splits)
  ultimately show "\<exists>v \<in> set (verifications w).
          hasKey ty tg v \<and>
          (v_expiresAt v = None \<or> (\<exists>e. v_expiresAt v = Some e \<and> now < e)) \<and>
          verifyTOTP H now code (v_secret v) (v_algorithm v) (v_period v) 0 = Inr True"
    using v(1) by blast
qed

theorem expired_challenge_is_rejected_witness:
  "verifyTOTP sampleHash 300001 ''003001'' ''abc'' ''SHA256'' 300 0 = Inr True \<and>
   list_all (\<lambda>v. hasKey Onboarding ''a@x.com'' v \<longrightarrow>
       (case v_expiresAt v of None \<Rightarrow> False | Some e \<Rightarrow> e \<le> 300001)) (verifications issuedWorld) \<and>
   fst (isCodeValid sampleHash 300001 ''003001'' Onboarding ''a@x.com'' issuedWorld) = Inr False"
proof -
  have c: "verifyTOTP sampleHash 300001 ''003001'' ''abc'' ''SHA256'' 300 0 = Inr True"
    by (simp add: totp_defs)
  have e: "list_all (\<lambda>v. hasKey Onboarding ''a@x.com'' v \<longrightarrow>
       (case v_expiresAt v of None \<Rightarrow> False | Some e \<Rightarrow> e \<le> 300001)) (verifications issuedWorld)"
    by (simp add: issuedWorld_eq)
  from expired_challenge_is_rejected[of Onboarding "''a@x.com''" 300001 issuedWorld sampleHash
      "''003001''"] c e
  show ?thesis by blast
qed

section \<open>Loader and action\<close>

text \<open>
  C6. When the query of a request holds the code parameter, the loader runs
  \<open>validateRequest\<close> on the query, as the action does on the form data: on the same
  data the two return the same response and leave the same world. So a GET with a valid
  code (and the default intent) deletes the challenge and invokes the flow handler.
\<close>

theorem loader_consumes_like_action:
  "has codeQueryParam (r_searchParams req) \<longrightarrow>
     loader H hs now req w = validateRequest H hs now req (r_searchParams req) w \<and>
     (r_formData req = r_searchParams req \<longrightarrow> loader H hs now req w = action H hs now req w) \<and>
     (\<forall>issues d.
        VerifySchema (b_fields (r_searchParams req)) = (Valid, issues, Some d) \<and>
        intentOf (r_searchParams req) = ''submit'' \<and>
        fst (isCodeValid H now (codeParam d) (typeParam d) (targetParam d) w) = Inr True
        \<longrightarrow> (\<exists>r. fst (loader H hs now req w) = Inr (Handled r)) \<and>
            \<not> list_ex (hasKey (typeParam d) (targetParam d))
                (verifications (snd (loader H hs now req w))) \<and>
            trace (snd (loader H hs now req w)) =
              trace w @ [FindFirst, Delete, Handler (typeParam d)])"
proof (intro impI)
  assume h: "has codeQueryParam (r_searchParams req)"
  then have l: "loader H hs now req w = validateRequest H hs now req (r_searchParams req) w"
    by (simp add: loader_def)
  have "\<exists>r. fst (loader H hs now req w) = Inr (Handled r)"
    and "\<not> list_ex (hasKey (typeParam d) (targetParam d))
            (verifications (snd (loader H hs now req w)))"
    and "trace (snd (loader H hs now req w)) =
           trace w @ [FindFirst, Delete, Handler (typeParam d)]"
    if "VerifySchema (b_fields (r_searchParams req)) = (Valid, issues, Some d)"
      and "intentOf (r_searchParams req) = ''submit''"
      and "fst (isCodeValid H now (codeParam d) (typeParam d) (targetParam d) w) = Inr True"
    for issues d
    using validateRequest_accepted[OF that(1) that(3) that(2), of hs req] l
    by (auto simp: list_ex_iff)
  with l show "loader H hs now req w = validateRequest H hs now req (r_searchParams req) w \<and>
     (r_formData req = r_searchParams req \<longrightarrow> loader H hs now req w = action H hs now req w) \<and>
     (\<forall>issues d.
        VerifySchema (b_fields (r_searchParams req)) = (Valid, issues, Some d) \<and>
        intentOf (r_searchParams req) = ''submit'' \<and>
        fst (isCodeValid H now (codeParam d) (typeParam d) (targetParam d) w) = Inr True
        \<longrightarrow> (\<exists>r. fst (loader H hs now req w) = Inr (Handled r)) \<and>
            \<not> list_ex (hasKey (typeParam d) (targetParam d))
                (verifications (snd (loader H hs now req w))) \<and>
            trace (snd (loader H hs now req w)) =
              trace w @ [FindFirst, Delete, Handler (typeParam d)])"
    by (simp add: action_def)
qed

theorem loader_consumes_like_action_witness:
  "has codeQueryParam (r_searchParams (sampleRequest ''003000'')) \<and>
   r_formData (sampleRequest ''003000'') = r_searchParams (sampleRequest ''003000'') \<and>
   loader sampleHash sampleHandlers 10000 (sampleRequest ''003000'') issuedWorld =
     action sampleHash sampleHandlers 10000 (sampleRequest ''003000'') issuedWorld \<and>
   loader sampleHash sampleHandlers 10000 (sampleRequest ''003000'') issuedWorld =
     (Inr (Handled ''/onboarding''),
      \<lparr>verifications = [],
       trace = [DeleteMany, Create, FindFirst, Delete, Handler Onboarding]\<rparr>)"
proof -
  have h: "has codeQueryParam (r_searchParams (sampleRequest ''003000''))"
    by (simp add: schema_defs)
  have e: "r_formData (sampleRequest ''003000'') = r_searchParams (sampleRequest ''003000'')"
    by (simp add: sampleRequest_def)
  have a: "validateRequest sampleHash sampleHandlers 10000 (sampleRequest ''003000'')
      (r_searchParams (sampleRequest ''003000'')) issuedWorld =
        (Inr (Handled ''/onboarding''),
         \<lparr>verifications = [],
          trace = [DeleteMany, Create, FindFirst, Delete, Handler Onboarding]\<rparr>)"
    by (simp add: issuedWorld_eq route_defs schema_defs totp_defs store_defs)
  from loader_consumes_like_action[of "sampleRequest ''003000''" sampleHash sampleHandlers 10000
      issuedWorld] h e a
  show ?thesis by (simp add: action_def)
qed

section \<open>Consuming a challenge that is not there\<close>

text \<open>
  C3, as stated: the delete of a challenge that does not exist completes normally. It
  does not: the route deletes by unique key, and that call raises when there is no row.
\<close>

theorem consume_absent_counterexample:
  "fst (prisma_delete Onboarding ''a@x.com'' emptyWorld) = Inl RecordNotFound"
  by (simp add: prisma_delete_def emptyWorld_def)

text \<open>
  C3, amended. The delete by unique key raises \<open>RecordNotFound\<close> and changes no row when
  the pair has no challenge, and completes normally when it has one. Inside
  \<open>validateRequest\<close> it is reached only after \<open>isCodeValid\<close> returned true, when a
  challenge exists, so a submission never raises \<open>RecordNotFound\<close>.
\<close>

theorem consume_raises_only_when_absent:
  "(\<not> list_ex (hasKey ty tg) (verifications w)
      \<longrightarrow> prisma_delete ty tg w = (Inl RecordNotFound, log Delete w)) \<and>
   (list_ex (hasKey ty tg) (verifications w) \<longrightarrow> fst (prisma_delete ty tg w) = Inr ()) \<and>
   fst (validateRequest H hs now req b w) \<noteq> Inl RecordNotFound"
proof (intro conjI impI)
  show "prisma_delete ty tg w = (Inl RecordNotFound, log Delete w)"
    if "\<not> list_ex (hasKey ty tg) (verifications w)"
    using that by (simp add: prisma_delete_def)
  show "fst (prisma_delete ty tg w) = Inr ()"
    if "list_ex (hasKey ty tg) (verifications w)"
    using that by (simp add: prisma_delete_def)
  show "fst (validateRequest H hs now req b w) \<noteq> Inl RecordNotFound"
  proof (cases rule: validateRequest_outcomes[of b H hs now req w])
    case (aborted sub)
    then show ?thesis by simp
  next
    case (raised st issues d e)
    from raised(2) have "e = InvalidPeriod"
      by (auto simp: isCodeValid_def prisma_findFirst_def verifyTOTP_def verify_def Let_def
               split: option.splits sum.splits if_splits)
    with raised(3) show ?thesis by simp
  next
    case (rejected st issues d ok sub)
    then show ?thesis by simp
  next
    case (accepted issues d r)
    then show ?thesis by simp
  qed
qed

theorem consume_raises_only_when_absent_witness:
  "\<not> list_ex (hasKey Onboarding ''a@x.com'') (verifications emptyWorld) \<and>
   prisma_delete Onboarding ''a@x.com'' emptyWorld = (Inl RecordNotFound, log Delete emptyWorld) \<and>
   list_ex (hasKey Onboarding ''a@x.com'') (verifications issuedWorld) \<and>
   fst (prisma_delete Onboarding ''a@x.com'' issuedWorld) = Inr ()"
proof -
  have a: "\<not> list_ex (hasKey Onboarding ''a@x.com'') (verifications emptyWorld)"
    by (simp add: emptyWorld_def)
  have b: "list_ex (hasKey Onboarding ''a@x.com'') (verifications issuedWorld)"
    by (simp add: issuedWorld_eq hasKey_def)
  from consume_raises_only_when_absent[of Onboarding "''a@x.com''" emptyWorld]
    consume_raises_only_when_absent[of Onboarding "''a@x.com''" issuedWorld] a b
  show ?thesis by blast
qed

section \<open>A code of the wrong length\<close>

lemma VerifySchema_wrong_length:
  assumes "f_code p = Str c" and "length c \<noteq> 6"
  shows "fst (VerifySchema p) \<noteq> Valid"
proof -
  from assms have "fst (codeSchema (f_code p)) = Dirty"
    by (auto simp: codeSchema_def)
  then show ?thesis
    by (cases "codeSchema (f_code p)"; cases "typeSchema (f_type p)";
        cases "targetSchema (f_target p)"; cases "redirectToSchema (f_redirectTo p)")
       (auto simp: VerifySchema_def split: option.splits)
qed

text \<open>
  C8, as stated: a code whose length is not 6 is rejected with no access to the store.
  It is rejected, but a length issue leaves the parse dirty, not aborted, so the
  refinement still runs \<open>isCodeValid\<close>: here a code of length 4 costs one \<open>findFirst\<close>.
\<close>

theorem malformed_code_no_store_access_counterexample:
  "length ''0030'' \<noteq> 6 \<and>
   trace (snd (validateRequest sampleHash sampleHandlers 10000 (sampleRequest ''0030'')
            (sampleBody ''0030'') emptyWorld)) = [FindFirst]"
  by (simp add: route_defs schema_defs totp_defs store_defs)

text \<open>
  C8, amended. A submission whose code is a string of a length other than 6 is never
  accepted: no handler is invoked, no row changes, and unless the check itself raised the
  response is the idle response (intent other than \<open>submit\<close>) or the error response with
  status 400. The store is not accessed when the schema aborts (a type outside the
  enumeration, or a field that is missing or not a string); otherwise the check still runs
  and makes exactly one \<open>findFirst\<close> call, and nothing else.
\<close>

theorem malformed_code_is_rejected:
  assumes "f_code (b_fields b) = Str c" and "length c \<noteq> 6"
  shows "(\<forall>r. fst (validateRequest H hs now req b w) \<noteq> Inr (Handled r)) \<and>
     verifications (snd (validateRequest H hs now req b w)) = verifications w \<and>
     trace (snd (validateRequest H hs now req b w)) =
       trace w @ (if snd (snd (VerifySchema (b_fields b))) = None then [] else [FindFirst]) \<and>
     ((\<exists>e. fst (validateRequest H hs now req b w) = Inl e) \<or>
      (\<exists>sub. fst (validateRequest H hs now req b w) =
         Inr (if intentOf b \<noteq> ''submit'' then Json ''idle'' sub 200 else Json ''error'' sub 400)))"
proof -
  have nv: "fst (VerifySchema (b_fields b)) \<noteq> Valid"
    using assms by (rule VerifySchema_wrong_length)
  show ?thesis
  proof (cases rule: validateRequest_outcomes[of b H hs now req w])
    case (aborted sub)
    then show ?thesis by auto
  next
    case (raised st issues d e)
    then show ?thesis by simp
  next
    case (rejected st issues d ok sub)
    then show ?thesis by auto
  next
    case (accepted issues d r)
    with nv show ?thesis by simp
  qed
qed

theorem malformed_code_is_rejected_witness:
  "f_code (b_fields (sampleBody ''0030'')) = Str ''0030'' \<and> length ''0030'' \<noteq> 6 \<and>
   verifications (snd (validateRequest sampleHash sampleHandlers 10000 (sampleRequest ''0030'')
      (sampleBody ''0030'') issuedWorld)) = verifications issuedWorld \<and>
   trace (snd (validateRequest sampleHash sampleHandlers 10000 (sampleRequest ''0030'')
      (sampleBody ''0030'') issuedWorld)) = trace issuedWorld @ [FindFirst]"
proof -
  have a: "f_code (b_fields (sampleBody ''0030'')) = Str ''0030''"
    by (simp add: sampleBody_def)
  have b: "length ''0030'' \<noteq> 6"
    by simp
  have c: "snd (snd (VerifySchema (b_fields (sampleBody ''0030'')))) \<noteq> None"
    by (simp add: schema_defs)
  from malformed_code_is_rejected[OF a b, of sampleHash sampleHandlers 10000
      "sampleRequest ''0030''" issuedWorld] a c
  show ?thesis by simp
qed

section \<open>The TOTP round trip\<close>

lemma fold_conj_zip:
  "fold (\<lambda>(x, y) acc. acc \<and> x = y) (zip a b) acc = (acc \<and> (\<forall>(x, y) \<in> set (zip a b). x = y))"
  by (induction a arbitrary: b acc) (auto simp: zip_Cons1 split: list.splits)

lemma constantTimeEqual_iff: "constantTimeEqual a b \<longleftrightarrow> a = b"
proof (cases "length a = length b")
  case True
  then have "(\<forall>(x, y) \<in> set (zip a b). x = y) \<longleftrightarrow> a = b"
    by (induction a b rule: list_induct2) auto
  with True show ?thesis
    by (simp add: constantTimeEqual_def fold_conj_zip)
next
  case False
  then show ?thesis
    by (auto simp: constantTimeEqual_def)
qed

text \<open>
  C9. For every secret, algorithm, positive period and time, \<open>generate\<close> returns a code,
  and \<open>verify\<close> with window 0 at the same time accepts that code. The same holds for
  \<open>generateTOTP\<close> and \<open>verifyTOTP\<close> at the same clock reading.
\<close>

theorem totp_round_trip:
  assumes "0 < period"
  shows "\<exists>c. generate H secret alg period t = Inr c \<and>
             verify H c secret alg period 0 t = Inr True \<and>
             (\<exists>g. generateTOTP H now secret alg period = Inr g \<and>
                  verifyTOTP H now (otp g) (t_secret g) (t_algorithm g) (t_period g) 0
                    = Inr True)"
  using assms
  by (simp add: generate_def verify_def generateTOTP_def verifyTOTP_def constantTimeEqual_iff)

theorem totp_round_trip_witness:
  "(0::int) < 300 \<and> generate sampleHash ''abc'' ''SHA256'' 300 10 = Inr ''003000'' \<and>
   verify sampleHash ''003000'' ''abc'' ''SHA256'' 300 0 10 = Inr True"
proof -
  have g: "generate sampleHash ''abc'' ''SHA256'' 300 10 = Inr ''003000''"
    by (simp add: totp_defs)
  from totp_round_trip[of 300 sampleHash "''abc''" "''SHA256''" 10 10000] g
  show ?thesis by simp
qed

section \<open>How the calls change the table\<close>

lemma validateRequest_rows:
  "verifications (snd (validateRequest H hs now req b w)) = verifications w \<or>
   (\<exists>ty tg. verifications (snd (validateRequest H hs now req b w)) =
      filter (\<lambda>v. \<not> hasKey ty tg v) (verifications w))"
proof (cases rule: validateRequest_outcomes[of b H hs now req w])
  case (aborted sub)
  then show ?thesis by simp
next
  case (raised st issues d e)
  then show ?thesis by simp
next
  case (rejected st issues d ok sub)
  then show ?thesis by simp
next
  case (accepted issues d r)
  then show ?thesis by auto
qed

lemma list_ex_filter_not [simp]: "\<not> list_ex P (filter (\<lambda>v. \<not> P v) xs)"
  by (simp add: list_ex_iff)

lemma prepareVerification_rows:
  "verifications (snd (prepareVerification H now secret period req ty tg w)) = verifications w \<or>
   verifications (snd (prepareVerification H now secret period req ty tg w)) =
     filter (\<lambda>v. \<not> hasKey ty tg v) (verifications w) \<or>
   (\<exists>v. hasKey ty tg v \<and>
      verifications (snd (prepareVerification H now secret period req ty tg w)) =
        filter (\<lambda>v. \<not> hasKey ty tg v) (verifications w) @ [v])"
  by (auto simp: prepareVerification_def Let_def prisma_deleteMany_def prisma_create_def
        hasKey_def split: sum.splits option.splits)

lemma prepareVerification_issued:
  assumes "r_verifyUrl req = Some u" and "0 < period"
    and "- maxDate \<le> now + period * 1000" and "now + period * 1000 \<le> maxDate"
  shows "\<exists>p. prepareVerification H now secret period req ty tg w =
     (Inr p,
      \<lparr>verifications =
         filter (\<lambda>v. \<not> hasKey ty tg v) (verifications w) @
           [\<lparr>v_type = ty, v_target = tg, v_secret = secret, v_algorithm = ''SHA256'',
             v_period = period, v_expiresAt = Some (now + period * 1000)\<rparr>],
       trace = trace w @ [DeleteMany, Create]\<rparr>)"
  using assms
  by (simp add: prepareVerification_def getRedirectToUrl_def generateTOTP_def generate_def
        newDate_def Let_def prisma_deleteMany_def prisma_create_def log_def hasKey_def
        list_ex_iff)

lemma prepareVerification_invalid_date:
  assumes "r_verifyUrl req = Some u" and "0 < period" and "maxDate < now + period * 1000"
  shows "prepareVerification H now secret period req ty tg w =
     (Inl InvalidDate,
      \<lparr>verifications = filter (\<lambda>v. \<not> hasKey ty tg v) (verifications w),
       trace = trace w @ [DeleteMany, Create]\<rparr>)"
  using assms
  by (simp add: prepareVerification_def getRedirectToUrl_def generateTOTP_def generate_def
        newDate_def Let_def prisma_deleteMany_def log_def)

lemma step_keeps_absent:
  assumes "\<not> issuesFor ty tg x" and "\<not> list_ex (hasKey ty tg) (verifications w)"
  shows "\<not> list_ex (hasKey ty tg) (verifications (step H hs x w))"
proof (cases x)
  case (Prepare now secret period req ty' tg')
  with assms(1) have ne: "\<not> (ty' = ty \<and> tg' = tg)" by simp
  from prepareVerification_rows[of H now secret period req ty' tg' w]
  show ?thesis
    using Prepare assms(2) ne by (auto simp: list_ex_iff hasKey_def)
next
  case (Submit now req b)
  from validateRequest_rows[of H hs now req b w]
  show ?thesis
    using Submit assms(2) by (auto simp: list_ex_iff)
qed

lemma run_keeps_absent:
  assumes "list_all (\<lambda>x. \<not> issuesFor ty tg x) ops"
    and "\<not> list_ex (hasKey ty tg) (verifications w)"
  shows "\<not> list_ex (hasKey ty tg) (verifications (run H hs ops w))"
  using assms unfolding run_def
proof (induction ops arbitrary: w)
  case Nil
  then show ?case by simp
next
  case (Cons x ops)
  from Cons.prems have "\<not> list_ex (hasKey ty tg) (verifications (step H hs x w))"
    by (simp add: step_keeps_absent)
  with Cons.IH[of "step H hs x w"] Cons.prems(1) show ?case by simp
qed

lemma distinct_keys_filter:
  "distinct (map rowKey xs) \<Longrightarrow> distinct (map rowKey (filter P xs))"
  by (rule distinct_map_filter)

lemma step_uniqueKeys:
  assumes "uniqueKeys w"
  shows "uniqueKeys (step H hs x w)"
proof (cases x)
  case (Prepare now secret period req ty tg)
  have fresh: "rowKey v \<notin> rowKey ` set (filter (\<lambda>v. \<not> hasKey ty tg v) (verifications w))"
    if "hasKey ty tg v" for v
    using that by (auto simp: rowKey_def hasKey_def)
  from prepareVerification_rows[of H now secret period req ty tg w] assms
  show ?thesis
    using Prepare fresh by (auto simp: uniqueKeys_def distinct_keys_filter)
next
  case (Submit now req b)
  from validateRequest_rows[of H hs now req b w] assms
  show ?thesis
    using Submit by (auto simp: uniqueKeys_def distinct_keys_filter)
qed

lemma run_uniqueKeys:
  "uniqueKeys w \<Longrightarrow> uniqueKeys (run H hs ops w)"
  unfolding run_def
  by (induction ops arbitrary: w) (simp_all add: step_uniqueKeys)

lemma distinct_keys_at_most_one:
  "distinct (map rowKey xs) \<Longrightarrow> length (filter (hasKey ty tg) xs) \<le> 1"
proof (induction xs)
  case Nil
  then show ?case by simp
next
  case (Cons x xs)
  show ?case
  proof (cases "hasKey ty tg x")
    case True
    with Cons.prems have "\<forall>y \<in> set xs. \<not> hasKey ty tg y"
      by (auto simp: hasKey_def rowKey_def image_iff)
    then have "filter (hasKey ty tg) xs = []"
      by (simp add: filter_empty_conv)
    with True show ?thesis by simp
  next
    case False
    with Cons show ?thesis by simp
  qed
qed

section \<open>Single use\<close>

text \<open>
  C1. When a submission with intent \<open>submit\<close> passes validation, the challenge of its
  (type, target) is deleted before the handler is invoked and before the response is
  produced. From then on, as long as no new challenge is issued for that pair, whatever
  else is submitted or issued for other pairs, \<open>isCodeValid\<close> returns false for the pair
  at every time and for every code, and the same submission made again gets the error
  response: the code cannot succeed twice.
\<close>

theorem consumed_code_cannot_be_replayed:
  assumes "VerifySchema (b_fields b) = (Valid, issues, Some d)"
    and "intentOf b = ''submit''"
    and "fst (isCodeValid H now (codeParam d) (typeParam d) (targetParam d) w) = Inr True"
    and "list_all (\<lambda>x. \<not> issuesFor (typeParam d) (targetParam d) x) ops"
  shows "(\<exists>r. fst (validateRequest H hs now req b w) = Inr (Handled r)) \<and>
     trace (snd (validateRequest H hs now req b w)) =
       trace w @ [FindFirst, Delete, Handler (typeParam d)] \<and>
     \<not> list_ex (hasKey (typeParam d) (targetParam d))
         (verifications (snd (validateRequest H hs now req b w))) \<and>
     fst (isCodeValid H now' code' (typeParam d) (targetParam d)
            (run H hs ops (snd (validateRequest H hs now req b w)))) = Inr False \<and>
     (\<exists>sub. fst (validateRequest H hs now' req' b
                  (run H hs ops (snd (validateRequest H hs now req b w))))
             = Inr (Json ''error'' sub 400))"
proof -
  let ?w1 = "snd (validateRequest H hs now req b w)"
  let ?w2 = "run H hs ops ?w1"
  from validateRequest_accepted[OF assms(1) assms(3) assms(2), of hs req]
  obtain r where r: "validateRequest H hs now req b w =
           (Inr (Handled r),
            log (Handler (typeParam d))
              (log Delete ((log FindFirst w)
                 \<lparr>verifications :=
                    filter (\<lambda>v. \<not> hasKey (typeParam d) (targetParam d) v) (verifications w)\<rparr>)))"
    by blast
  then have gone: "\<not> list_ex (hasKey (typeParam d) (targetParam d)) (verifications ?w1)"
    by simp
  have still: "\<not> list_ex (hasKey (typeParam d) (targetParam d)) (verifications ?w2)"
    using assms(4) gone by (rule run_keeps_absent)
  have no: "fst (isCodeValid H t c (typeParam d) (targetParam d) ?w2) = Inr False" for t c
    using still by (rule isCodeValid_no_row)
  have "\<exists>sub. validateRequest H hs now' req' b ?w2 =
           (Inr (if intentOf b \<noteq> ''submit'' then Json ''idle'' sub 200 else Json ''error'' sub 400),
            log FindFirst ?w2)"
    by (rule validateRequest_rejected[OF assms(1) no]) simp
  with assms(2)
  have "\<exists>sub. fst (validateRequest H hs now' req' b ?w2) = Inr (Json ''error'' sub 400)"
    by auto
  with r gone no show ?thesis by simp
qed

theorem consumed_code_cannot_be_replayed_witness:
  "intentOf (sampleBody ''003000'') = ''submit'' \<and>
   fst (isCodeValid sampleHash 10000 ''003000'' Onboarding ''a@x.com'' issuedWorld) = Inr True \<and>
   list_all (\<lambda>x. \<not> issuesFor Onboarding ''a@x.com'' x)
     [Submit 15000 (sampleRequest ''111111'') (sampleBody ''111111'')] \<and>
   fst (isCodeValid sampleHash 20000 ''003000'' Onboarding ''a@x.com''
          (run sampleHash sampleHandlers
             [Submit 15000 (sampleRequest ''111111'') (sampleBody ''111111'')]
             (snd (validateRequest sampleHash sampleHandlers 10000 (sampleRequest ''003000'')
                     (sampleBody ''003000'') issuedWorld)))) = Inr False"
proof -
  have v: "VerifySchema (b_fields (sampleBody ''003000'')) =
      (Valid, [], Some \<lparr>codeParam = ''003000'', typeParam = Onboarding,
                        targetParam = ''a@x.com'', redirectToParam = None\<rparr>)"
    by (simp add: sampleBody_schema)
  have i: "intentOf (sampleBody ''003000'') = ''submit''"
    by (simp add: schema_defs)
  have c: "fst (isCodeValid sampleHash 10000 ''003000'' Onboarding ''a@x.com'' issuedWorld)
             = Inr True"
    by (simp add: issuedWorld_eq isCodeValid_def totp_defs store_defs)
  have l: "list_all (\<lambda>x. \<not> issuesFor Onboarding ''a@x.com'' x)
     [Submit 15000 (sampleRequest ''111111'') (sampleBody ''111111'')]"
    by simp
  from consumed_code_cannot_be_replayed[OF v i, where H = sampleHash and now = 10000
      and w = issuedWorld
      and ops = "[Submit 15000 (sampleRequest ''111111'') (sampleBody ''111111'')]"
      and hs = sampleHandlers and req = "sampleRequest ''003000''" and now' = 20000
      and code' = "''003000''"] c l i
  show ?thesis by simp
qed

section \<open>Supersession\<close>

lemma find_skip_prefix:
  "\<forall>y \<in> set xs. \<not> P y \<Longrightarrow> find P (xs @ ys) = find P ys"
  by (induction xs) simp_all

lemma length_sixDigits: "length (sixDigits n) = 6"
  by (simp add: sixDigits_def)

text \<open>
  Whatever the keyed function is, two different secrets give the same code at some time
  step: there are infinitely many secrets and finitely many codes.
\<close>

lemma codes_collide:
  "\<exists>s1 s2. s1 \<noteq> s2 \<and> sixDigits ((H :: hmac) alg s1 c) = sixDigits (H alg s2 c)"
proof -
  let ?f = "\<lambda>s. sixDigits (H alg s c)"
  have "finite {xs :: string. set xs \<subseteq> UNIV \<and> length xs = 6}"
    by (rule finite_lists_length_eq) simp
  moreover have "range ?f \<subseteq> {xs :: string. set xs \<subseteq> UNIV \<and> length xs = 6}"
    by (auto simp: length_sixDigits)
  ultimately have fin: "finite (range ?f)"
    by (rule rev_finite_subset)
  have "\<not> inj ?f"
  proof
    assume i: "inj ?f"
    have "finite (UNIV :: string set)"
      using finite_imageD[OF fin i] .
    then show False
      using infinite_UNIV_listI by blast
  qed
  then show ?thesis
    by (auto simp: inj_on_def)
qed

text \<open>
  C2, as stated: once a second challenge is issued for a pair, the code of the first
  validates as false. Not always: the first code is checked against the second challenge,
  and is accepted when it is also the current code of the second. Here the two challenges
  have different secrets whose codes coincide.
\<close>

theorem superseded_code_counterexample:
  "map_sum id p_otp
     (fst (prepareVerification sampleHash 0 ''abc'' 300 (sampleRequest []) Onboarding ''a@x.com''
             emptyWorld)) = Inr ''003000'' \<and>
   ''abd'' \<noteq> ''abc'' \<and>
   fst (isCodeValid sampleHash 10000 ''003000'' Onboarding ''a@x.com''
          (snd (prepareVerification sampleHash 1000 ''abd'' 300 (sampleRequest []) Onboarding
                  ''a@x.com'' issuedWorld))) = Inr True"
  by (simp add: issuedWorld_eq prepareVerification_def isCodeValid_def issue_defs totp_defs
        store_defs Let_def)

text \<open>
  C2, amended. When the request's URL is valid, the period is positive and the expiry
  date (the clock plus the period) is within the range of a date, \<open>prepareVerification\<close>
  succeeds: it first deletes every challenge of the pair and then creates one, so that
  exactly one challenge of the pair exists afterwards, the new one. From a table with at
  most one challenge per pair, every sequence of issuances and submissions, failed ones
  included, leaves at most one challenge per pair. After the second issuance a code is
  checked against the second challenge only: it is accepted exactly when that challenge
  has not expired and the code is its current code. So the code of the first challenge
  validates as false unless it equals the current code of the second.
\<close>

theorem issuing_supersedes:
  assumes "r_verifyUrl req \<noteq> None" and "0 < period" and "0 \<le> now"
    and "now + period * 1000 \<le> maxDate"
  shows "(\<exists>p. fst (prepareVerification H now secret period req ty tg w) = Inr p) \<and>
     trace (snd (prepareVerification H now secret period req ty tg w)) =
       trace w @ [DeleteMany, Create] \<and>
     challengesFor ty tg (snd (prepareVerification H now secret period req ty tg w)) =
       [\<lparr>v_type = ty, v_target = tg, v_secret = secret, v_algorithm = ''SHA256'',
         v_period = period, v_expiresAt = Some (now + period * 1000)\<rparr>] \<and>
     fst (isCodeValid H t code ty tg
            (snd (prepareVerification H now secret period req ty tg w))) =
       Inr (t < now + period * 1000 \<and>
            code = sixDigits (H ''SHA256'' secret (t div 1000 div period))) \<and>
     (uniqueKeys w0 \<longrightarrow> length (challengesFor ty' tg' (run H hs ops w0)) \<le> 1)"
proof -
  let ?new = "\<lparr>v_type = ty, v_target = tg, v_secret = secret, v_algorithm = ''SHA256'',
         v_period = period, v_expiresAt = Some (now + period * 1000)\<rparr>"
  let ?old = "filter (\<lambda>v. \<not> hasKey ty tg v) (verifications w)"
  let ?w2 = "snd (prepareVerification H now secret period req ty tg w)"
  from assms(1) obtain u where u: "r_verifyUrl req = Some u"
    by auto
  from assms(2,3) have lo: "- maxDate \<le> now + period * 1000"
    by (simp add: maxDate_def)
  from prepareVerification_issued[OF u assms(2) lo assms(4), of H secret ty tg w]
  obtain p where p: "prepareVerification H now secret period req ty tg w =
     (Inr p, \<lparr>verifications = ?old @ [?new], trace = trace w @ [DeleteMany, Create]\<rparr>)"
    by blast
  have one: "challengesFor ty tg ?w2 = [?new]"
    by (simp add: p challengesFor_def hasKey_def)
  have "\<forall>y \<in> set ?old. \<not> live ty tg t y"
    by (auto dest: live_hasKey)
  then have f: "find (live ty tg t) (verifications ?w2) = find (live ty tg t) [?new]"
    by (simp add: p find_skip_prefix)
  have win: "window (typeOTPConfig ty) = 0"
    by (cases ty) simp_all
  have check: "fst (isCodeValid H t code ty tg ?w2) =
       Inr (t < now + period * 1000 \<and>
            code = sixDigits (H ''SHA256'' secret (t div 1000 div period)))"
    using assms(2)
    by (auto simp: isCodeValid_def prisma_findFirst_def f win live_def verifyTOTP_def verify_def
          constantTimeEqual_iff)
  have inv: "length (challengesFor ty' tg' (run H hs ops w0)) \<le> 1" if "uniqueKeys w0"
  proof -
    from that have "uniqueKeys (run H hs ops w0)"
      by (rule run_uniqueKeys)
    then show ?thesis
      unfolding uniqueKeys_def challengesFor_def by (rule distinct_keys_at_most_one)
  qed
  from p one check inv show ?thesis by simp
qed

theorem issuing_supersedes_witness:
  "r_verifyUrl (sampleRequest []) \<noteq> None \<and> (0::int) < 300 \<and> (0::int) \<le> 1000 \<and>
   1000 + 300 * 1000 \<le> maxDate \<and> uniqueKeys emptyWorld \<and>
   challengesFor Onboarding ''a@x.com''
     (snd (prepareVerification sampleHash 1000 ''wxyz'' 300 (sampleRequest []) Onboarding
             ''a@x.com'' issuedWorld)) =
     [\<lparr>v_type = Onboarding, v_target = ''a@x.com'', v_secret = ''wxyz'',
       v_algorithm = ''SHA256'', v_period = 300, v_expiresAt = Some 301000\<rparr>] \<and>
   fst (isCodeValid sampleHash 10000 ''003000'' Onboarding ''a@x.com''
          (snd (prepareVerification sampleHash 1000 ''wxyz'' 300 (sampleRequest []) Onboarding
                  ''a@x.com'' issuedWorld))) = Inr False \<and>
   fst (isCodeValid sampleHash 10000 ''004000'' Onboarding ''a@x.com''
          (snd (prepareVerification sampleHash 1000 ''wxyz'' 300 (sampleRequest []) Onboarding
                  ''a@x.com'' issuedWorld))) = Inr True \<and>
   length (challengesFor Onboarding ''a@x.com''
     (run sampleHash sampleHandlers
        [Prepare 0 ''abc'' 300 (sampleRequest []) Onboarding ''a@x.com'',
         Prepare 1000 ''wxyz'' 300 (sampleRequest []) Onboarding ''a@x.com'']
        emptyWorld)) \<le> 1"
proof -
  have r: "r_verifyUrl (sampleRequest []) \<noteq> None"
    by (simp add: sampleRequest_def)
  have p: "(0::int) < 300" by simp
  have n: "(0::int) \<le> 1000" by simp
  have d: "1000 + 300 * 1000 \<le> maxDate"
    by (simp add: maxDate_def)
  have u: "uniqueKeys emptyWorld"
    by (simp add: uniqueKeys_def emptyWorld_def)
  have c: "sixDigits (sampleHash ''SHA256'' ''wxyz'' (10000 div 1000 div 300)) = ''004000''"
    by (simp add: totp_defs)
  from issuing_supersedes[OF r p n d, where H = sampleHash and secret = "''wxyz''"
      and ty = Onboarding and tg = "''a@x.com''"
      and w = issuedWorld and t = 10000 and code = "''003000''" and ?w0.0 = emptyWorld
      and ty' = Onboarding and tg' = "''a@x.com''" and hs = sampleHandlers
      and ops = "[Prepare 0 ''abc'' 300 (sampleRequest []) Onboarding ''a@x.com'',
         Prepare 1000 ''wxyz'' 300 (sampleRequest []) Onboarding ''a@x.com'']"]
    issuing_supersedes[OF r p n d, where H = sampleHash and secret = "''wxyz''"
      and ty = Onboarding and tg = "''a@x.com''"
      and w = issuedWorld and t = 10000 and code = "''004000''" and ?w0.0 = emptyWorld
      and ty' = Onboarding and tg' = "''a@x.com''" and hs = sampleHandlers
      and ops = "[]"]
    r d u c
  show ?thesis by simp
qed

end
